theory Spec2Isabelle
  imports Main "HOL-Library.Word"
begin

section \<open>Strings of the source language\<close>

text \<open>
  A string of the program is a sequence of 16-bit code units. A literal of the source
  is written \<open>js ''...''\<close>; the characters that the literal syntax of HOL does not
  take (quotes, the back-slash, the back-quote, the line feed) are given by their code.
\<close>

type_synonym jschar = "16 word"
type_synonym jsstring = "jschar list"

definition js :: "string \<Rightarrow> jsstring" where
  "js s = map of_char s"

abbreviation LF :: jschar where "LF \<equiv> 0x0A"
abbreviation dquote :: jschar where "dquote \<equiv> 0x22"
abbreviation squote :: jschar where "squote \<equiv> 0x27"
abbreviation comma :: jschar where "comma \<equiv> 0x2C"
abbreviation slash :: jschar where "slash \<equiv> 0x2F"
abbreviation colon :: jschar where "colon \<equiv> 0x3A"
abbreviation backslash :: jschar where "backslash \<equiv> 0x5C"
abbreviation backquote :: jschar where "backquote \<equiv> 0x60"
abbreviation rparen :: jschar where "rparen \<equiv> 0x29"

text \<open>The class \<open>\w\<close> of a regular expression: letters, digits and the underscore.\<close>

definition is_word :: "jschar \<Rightarrow> bool" where
  "is_word c \<longleftrightarrow>
     (0x30 \<le> c \<and> c \<le> 0x39) \<or> (0x41 \<le> c \<and> c \<le> 0x5A) \<or> c = 0x5F \<or> (0x61 \<le> c \<and> c \<le> 0x7A)"

text \<open>
  The class \<open>\s\<close>, which is also what \<open>trim\<close> removes: the white space and the line
  terminators of the language.
\<close>

definition is_space :: "jschar \<Rightarrow> bool" where
  "is_space c \<longleftrightarrow>
     (0x09 \<le> c \<and> c \<le> 0x0D) \<or> c = 0x20 \<or> c = 0xA0 \<or> c = 0x1680 \<or>
     (0x2000 \<le> c \<and> c \<le> 0x200A) \<or> c = 0x2028 \<or> c = 0x2029 \<or> c = 0x202F \<or>
     c = 0x205F \<or> c = 0x3000 \<or> c = 0xFEFF"

definition trim :: "jsstring \<Rightarrow> jsstring" where
  "trim s = rev (dropWhile is_space (rev (dropWhile is_space s)))"

text \<open>\<open>s.split(d)\<close> for a separator of one code unit; the empty string splits into one empty piece.\<close>

fun split :: "jschar \<Rightarrow> jsstring \<Rightarrow> jsstring list" where
  "split d [] = [[]]"
| "split d (c # cs) =
     (if c = d then [] # split d cs
      else (case split d cs of [] \<Rightarrow> [[c]] | p # ps \<Rightarrow> (c # p) # ps))"

text \<open>\<open>pieces.join(sep)\<close>.\<close>

fun join :: "jsstring \<Rightarrow> jsstring list \<Rightarrow> jsstring" where
  "join sep [] = []"
| "join sep [p] = p"
| "join sep (p # q # ps) = p @ sep @ join sep (q # ps)"

fun strip_prefix :: "jsstring \<Rightarrow> jsstring \<Rightarrow> jsstring option" where
  "strip_prefix [] s = Some s"
| "strip_prefix (p # ps) [] = None"
| "strip_prefix (p # ps) (c # cs) = (if p = c then strip_prefix ps cs else None)"

text \<open>\<open>s.includes(sub)\<close>: \<open>sub\<close> occurs in \<open>s\<close> at some position.\<close>

fun str_includes :: "jsstring \<Rightarrow> jsstring \<Rightarrow> bool" where
  "str_includes [] sub = (sub = [])"
| "str_includes (c # cs) sub = (strip_prefix sub (c # cs) \<noteq> None \<or> str_includes cs sub)"

section \<open>Regular expressions, matched with backtracking\<close>

text \<open>
  A pattern is matched the way the engine does it: each piece consumes a prefix of the
  text and hands the rest to its continuation; when the continuation fails the piece
  tries its next alternative. A greedy repetition takes as many code units as it can
  and gives them back one at a time. The continuation of a repetition also receives the
  text the repetition consumed, which is how a capture group is read.
\<close>

definition lit :: "jsstring \<Rightarrow> jsstring \<Rightarrow> (jsstring \<Rightarrow> 'a option) \<Rightarrow> 'a option" where
  "lit l s k = (case strip_prefix l s of None \<Rightarrow> None | Some r \<Rightarrow> k r)"

fun star :: "(jschar \<Rightarrow> bool) \<Rightarrow> jsstring \<Rightarrow> (jsstring \<Rightarrow> jsstring \<Rightarrow> 'a option) \<Rightarrow> 'a option" where
  "star p [] k = k [] []"
| "star p (c # cs) k =
     (if p c then
        (case star p cs (\<lambda>m r. k (c # m) r) of Some x \<Rightarrow> Some x | None \<Rightarrow> k [] (c # cs))
      else k [] (c # cs))"

definition plus :: "(jschar \<Rightarrow> bool) \<Rightarrow> jsstring \<Rightarrow> (jsstring \<Rightarrow> jsstring \<Rightarrow> 'a option) \<Rightarrow> 'a option" where
  "plus p s k =
     (case s of [] \<Rightarrow> None | c # cs \<Rightarrow> if p c then star p cs (\<lambda>m r. k (c # m) r) else None)"

definition alt ::
  "(jsstring \<Rightarrow> (jsstring \<Rightarrow> 'a option) \<Rightarrow> 'a option) \<Rightarrow> (jsstring \<Rightarrow> (jsstring \<Rightarrow> 'a option) \<Rightarrow> 'a option) \<Rightarrow>
   jsstring \<Rightarrow> (jsstring \<Rightarrow> 'a option) \<Rightarrow> 'a option" where
  "alt m1 m2 s k = (case m1 s k of Some x \<Rightarrow> Some x | None \<Rightarrow> m2 s k)"

definition opt ::
  "(jsstring \<Rightarrow> (jsstring \<Rightarrow> 'a option) \<Rightarrow> 'a option) \<Rightarrow> jsstring \<Rightarrow> (jsstring \<Rightarrow> 'a option) \<Rightarrow> 'a option" where
  "opt m s k = (case m s k of Some x \<Rightarrow> Some x | None \<Rightarrow> k s)"

text \<open>An unanchored pattern is tried at every position from the left; the first match wins.\<close>

fun search :: "(jsstring \<Rightarrow> 'a option) \<Rightarrow> jsstring \<Rightarrow> 'a option" where
  "search m [] = m []"
| "search m (c # cs) = (case m (c # cs) of Some x \<Rightarrow> Some x | None \<Rightarrow> search m cs)"

section \<open>The data model\<close>

datatype component_type = ClientPage | Controller | Service | Gateway | Database | User

datatype subgraph_name = Client_subgraph | Server_subgraph | Database_subgraph | User_subgraph

record Component =
  comp_id :: jsstring
  comp_type :: component_type
  comp_label :: jsstring
  comp_filePath :: jsstring
  comp_subgraph :: subgraph_name

text \<open>The optional field \<open>isAsync\<close> is \<open>None\<close> when the object literal leaves it out.\<close>

record Interaction =
  inter_from :: jsstring
  inter_to :: jsstring
  inter_label :: jsstring
  inter_isAsync :: "bool option"

text \<open>
  The component map iterates in insertion order, and setting a key that is present
  replaces its value where it stands: an association list.
\<close>

type_synonym components = "(jsstring \<times> Component) list"

fun map_set :: "components \<Rightarrow> jsstring \<Rightarrow> Component \<Rightarrow> components" where
  "map_set [] k v = [(k, v)]"
| "map_set ((k', v') # m) k v = (if k' = k then (k, v) # m else (k', v') # map_set m k v)"

definition map_get :: "components \<Rightarrow> jsstring \<Rightarrow> Component option" where
  "map_get m k = map_of m k"

definition map_has :: "components \<Rightarrow> jsstring \<Rightarrow> bool" where
  "map_has m k \<longleftrightarrow> map_of m k \<noteq> None"

definition map_values :: "components \<Rightarrow> Component list" where
  "map_values m = map snd m"

definition map_keys :: "components \<Rightarrow> jsstring set" where
  "map_keys m = fst ` set m"

section \<open>The server extractor\<close>

text \<open>\<open>/@Controller\('([^']*)'\)/\<close>, giving the first group.\<close>

definition controllerMatch :: "jsstring \<Rightarrow> jsstring option" where
  "controllerMatch content =
     search (\<lambda>s. lit (js ''@Controller('' @ [squote]) s
       (\<lambda>s1. star (\<lambda>c. c \<noteq> squote) s1
         (\<lambda>route s2. lit (squote # js '')'') s2 (\<lambda>_. Some route)))) content"

text \<open>\<open>/@Injectable\(\)/\<close> and \<open>/@WebSocketGateway\(\)/\<close>, read for their truth value only.\<close>

definition serviceMatch :: "jsstring \<Rightarrow> bool" where
  "serviceMatch content \<longleftrightarrow>
     search (\<lambda>s. lit (js ''@Injectable()'') s (\<lambda>_. Some ())) content \<noteq> None"

definition gatewayMatch :: "jsstring \<Rightarrow> bool" where
  "gatewayMatch content \<longleftrightarrow>
     search (\<lambda>s. lit (js ''@WebSocketGateway()'') s (\<lambda>_. Some ())) content \<noteq> None"

text \<open>\<open>/export class (\w+)/\<close>, giving the first group.\<close>

definition classNameMatch :: "jsstring \<Rightarrow> jsstring option" where
  "classNameMatch content =
     search (\<lambda>s. lit (js ''export class '') s (\<lambda>s1. plus is_word s1 (\<lambda>name _. Some name))) content"

text \<open>\<open>/constructor\(([^)]*)\)/\<close>, giving the first group.\<close>

definition constructorMatch :: "jsstring \<Rightarrow> jsstring option" where
  "constructorMatch content =
     search (\<lambda>s. lit (js ''constructor('') s
       (\<lambda>s1. star (\<lambda>c. c \<noteq> rparen) s1
         (\<lambda>params s2. lit [rparen] s2 (\<lambda>_. Some params)))) content"

text \<open>
  \<open>/(?:private|public|protected)?\s*(?:readonly)?\s*\w+\s*:\s*(\w+)/\<close>, giving the
  first group.
\<close>

definition depMatch :: "jsstring \<Rightarrow> jsstring option" where
  "depMatch param =
     search (\<lambda>s.
       opt (alt (lit (js ''private'')) (alt (lit (js ''public'')) (lit (js ''protected'')))) s
       (\<lambda>s1. star is_space s1
       (\<lambda>_ s2. opt (lit (js ''readonly'')) s2
       (\<lambda>s3. star is_space s3
       (\<lambda>_ s4. plus is_word s4
       (\<lambda>_ s5. star is_space s5
       (\<lambda>_ s6. lit [colon] s6
       (\<lambda>s7. star is_space s7
       (\<lambda>_ s8. plus is_word s8
       (\<lambda>dependencyId _. Some dependencyId)))))))))) param"

text \<open>The loop over the constructor's parameters, pushing onto the interaction list.\<close>

definition push_dependency :: "jsstring \<Rightarrow> Interaction list \<Rightarrow> jsstring \<Rightarrow> Interaction list" where
  "push_dependency ident interactions param =
     (case depMatch param of
        None \<Rightarrow> interactions
      | Some dependencyId \<Rightarrow>
          interactions @ [\<lparr>inter_from = ident, inter_to = dependencyId,
                           inter_label = js ''inyecta'', inter_isAsync = None\<rparr>])"

definition analyzeServerFile ::
  "jsstring \<Rightarrow> jsstring \<Rightarrow> components \<Rightarrow> Interaction list \<Rightarrow> components \<times> Interaction list" where
  "analyzeServerFile filePath content components interactions =
     (case classNameMatch content of
        None \<Rightarrow> (components, interactions)
      | Some ident \<Rightarrow>
          (let components1 =
                 (case controllerMatch content of
                    Some captured \<Rightarrow>
                      (let route = js ''/api'' @ captured in
                       map_set components ident
                         \<lparr>comp_id = ident, comp_type = Controller,
                          comp_label = ident @ js ''<br><small>'' @ route @ js ''</small>'',
                          comp_filePath = filePath, comp_subgraph = Server_subgraph\<rparr>)
                  | None \<Rightarrow>
                      if serviceMatch content then
                        map_set components ident
                          \<lparr>comp_id = ident, comp_type = Service, comp_label = ident,
                           comp_filePath = filePath, comp_subgraph = Server_subgraph\<rparr>
                      else if gatewayMatch content then
                        map_set components ident
                          \<lparr>comp_id = ident, comp_type = Gateway,
                           comp_label = ident @ js ''<br><small>WebSocket</small>'',
                           comp_filePath = filePath, comp_subgraph = Server_subgraph\<rparr>
                      else components);
               interactions1 =
                 (case constructorMatch content of
                    None \<Rightarrow> interactions
                  | Some captured \<Rightarrow>
                      foldl (push_dependency ident) interactions (map trim (split comma captured)));
               interactions2 =
                 (if str_includes content (js ''PrismaService'') then
                    interactions1 @ [\<lparr>inter_from = ident, inter_to = js ''PrismaService'',
                                      inter_label = js ''usa'', inter_isAsync = None\<rparr>]
                  else interactions1)
           in (components1, interactions2)))"

section \<open>The client extractor\<close>

text \<open>\<open>.replace(/\\/g, '/')\<close>: every back-slash becomes a slash.\<close>

definition replace_backslashes :: "jsstring \<Rightarrow> jsstring" where
  "replace_backslashes s = map (\<lambda>c. if c = backslash then slash else c) s"

text \<open>
  \<open>.replace(/\/page\.tsx$/, '')\<close>: the pattern is tried at every position from the
  left and matches where the rest of the text is exactly \<open>/page.tsx\<close>; the match is
  replaced by the empty string.
\<close>

fun replace_page :: "jsstring \<Rightarrow> jsstring" where
  "replace_page [] = []"
| "replace_page (c # cs) = (if c # cs = js ''/page.tsx'' then [] else c # replace_page cs)"

text \<open>
  \<open>/fetch\(`\$\{apiUrl\}\/api\/([^`]*)`/\<close> tried at the start of the text, giving
  the first group.
\<close>

definition fetch_prefix :: jsstring where
  "fetch_prefix = js ''fetch('' @ [backquote] @ js ''${apiUrl}/api/''"

definition fetchMatch_at :: "jsstring \<Rightarrow> jsstring option" where
  "fetchMatch_at s =
     lit fetch_prefix s
       (\<lambda>s1. star (\<lambda>c. c \<noteq> backquote) s1
         (\<lambda>captured s2. lit [backquote] s2 (\<lambda>_. Some captured)))"

text \<open>
  \<open>content.matchAll\<close> with the global flag: after a match the search goes on where
  the match ended (the prefix, the group and the closing back-quote).
\<close>

function matchAll_fetch :: "jsstring \<Rightarrow> jsstring list" where
  "matchAll_fetch s =
     (case fetchMatch_at s of
        Some captured \<Rightarrow>
          captured # matchAll_fetch (drop (length fetch_prefix + length captured + 1) s)
      | None \<Rightarrow> (case s of [] \<Rightarrow> [] | c # cs \<Rightarrow> matchAll_fetch cs))"
  by pat_completeness auto
termination
proof (relation "measure length")
  show "wf (measure length)" by simp
next
  fix s :: jsstring and captured :: jsstring
  assume "fetchMatch_at s = Some captured"
  then have "s \<noteq> []"
    by (auto simp: fetchMatch_at_def fetch_prefix_def lit_def js_def)
  then show "(drop (length fetch_prefix + length captured + 1) s, s) \<in> measure length"
    by (cases s) auto
next
  fix s :: jsstring and c :: jschar and cs :: jsstring
  assume "s = c # cs"
  then show "(cs, s) \<in> measure length" by simp
qed

definition findControllerByRoute :: "jsstring \<Rightarrow> components \<Rightarrow> Component option" where
  "findControllerByRoute route components =
     List.find (\<lambda>component. comp_type component = Controller \<and>
                        str_includes (comp_label component) (js ''/api/'' @ route))
       (map_values components)"

definition findComponentByType :: "component_type \<Rightarrow> components \<Rightarrow> Component option" where
  "findComponentByType t components = List.find (\<lambda>component. comp_type component = t) (map_values components)"

definition push_fetch :: "jsstring \<Rightarrow> components \<Rightarrow> Interaction list \<Rightarrow> jsstring \<Rightarrow> Interaction list" where
  "push_fetch ident components interactions captured =
     (let endpoint = (case split slash captured of [] \<Rightarrow> [] | p # _ \<Rightarrow> p) in
      case findControllerByRoute endpoint components of
        None \<Rightarrow> interactions
      | Some targetController \<Rightarrow>
          interactions @ [\<lparr>inter_from = ident, inter_to = comp_id targetController,
                           inter_label = js ''GET /api/'' @ endpoint, inter_isAsync = None\<rparr>])"

text \<open>
  \<open>relative\<close> is the result of the library call \<open>path.relative(clientDir, filePath)\<close>,
  which the caller supplies.
\<close>

definition analyzeClientFile ::
  "jsstring \<Rightarrow> jsstring \<Rightarrow> jsstring \<Rightarrow> components \<Rightarrow> Interaction list \<Rightarrow> components \<times> Interaction list" where
  "analyzeClientFile filePath relative content components interactions =
     (let relativePath = replace_page (replace_backslashes relative);
          ident = js ''Page('' @ (if relativePath = [] then js ''/'' else relativePath) @ js '')'';
          label = js ''/'' @ (if relativePath = [] then [] else relativePath);
          components1 =
            map_set components ident
              \<lparr>comp_id = ident, comp_type = ClientPage, comp_label = label,
               comp_filePath = filePath, comp_subgraph = Client_subgraph\<rparr>;
          interactions1 = foldl (push_fetch ident components1) interactions (matchAll_fetch content);
          interactions2 =
            (if str_includes content (js ''useSocket()'') then
               (case findComponentByType Gateway components1 of
                  None \<Rightarrow> interactions1
                | Some gateway \<Rightarrow>
                    interactions1 @ [\<lparr>inter_from = ident, inter_to = comp_id gateway,
                                      inter_label = js ''conecta a'', inter_isAsync = Some True\<rparr>])
             else interactions1)
      in (components1, interactions2))"

section \<open>The external components\<close>

datatype error = ReferenceError

text \<open>
  The function receives the component map only. Its body names \<open>interactions\<close>, which
  is a local constant of \<open>main\<close> and is not bound here or at top level: evaluating
  that name raises a reference error, after the two components have been set.
\<close>

definition addExternalComponents :: "components \<Rightarrow> error + components" where
  "addExternalComponents components =
     (let components1 =
            map_set components (js ''User'')
              \<lparr>comp_id = js ''User'', comp_type = User,
               comp_label = [0xD83D, 0xDC64] @ js '' Usuario'',
               comp_filePath = [], comp_subgraph = User_subgraph\<rparr>;
          components2 =
            map_set components1 (js ''Database'')
              \<lparr>comp_id = js ''Database'', comp_type = Database,
               comp_label = [0xD83D, 0xDDC4, 0xFE0F] @ js '' Base de Datos'',
               comp_filePath = [], comp_subgraph = Database_subgraph\<rparr>
      in if map_has components2 (js ''PrismaService'') then Inl ReferenceError
         else Inr components2)"

section \<open>The renderer\<close>

fun subgraph_text :: "subgraph_name \<Rightarrow> jsstring" where
  "subgraph_text User_subgraph = js ''User''"
| "subgraph_text Client_subgraph = js ''Client''"
| "subgraph_text Server_subgraph = js ''Server''"
| "subgraph_text Database_subgraph = js ''Database''"

definition component_line :: "Component \<Rightarrow> jsstring" where
  "component_line component =
     js ''    '' @ comp_id component @ js ''['' @ [dquote] @ comp_label component @ [dquote] @ js '']''"

text \<open>The first loop: each component's line is pushed onto the list of its subgraph.\<close>

definition push_line :: "(subgraph_name \<Rightarrow> jsstring list) \<Rightarrow> Component \<Rightarrow> (subgraph_name \<Rightarrow> jsstring list)" where
  "push_line subgraphs component =
     subgraphs(comp_subgraph component := subgraphs (comp_subgraph component) @ [component_line component])"

text \<open>The second loop, over the keys of \<open>subgraphs\<close> in the order they were written.\<close>

definition emit_subgraph :: "(subgraph_name \<Rightarrow> jsstring list) \<Rightarrow> jsstring \<Rightarrow> subgraph_name \<Rightarrow> jsstring" where
  "emit_subgraph subgraphs mermaidStr subgraphName =
     (if length (subgraphs subgraphName) > 0 then
        mermaidStr @ js ''  subgraph '' @ subgraph_text subgraphName @ [LF]
          @ join [LF] (subgraphs subgraphName) @ [LF]
          @ js ''  end'' @ [LF]
      else mermaidStr)"

definition edge_line :: "Interaction \<Rightarrow> jsstring" where
  "edge_line interaction =
     (let arrow = (if inter_isAsync interaction = Some True then js ''-.->'' else js ''-->'') in
      js ''  '' @ inter_from interaction @ js '' '' @ arrow @ js ''|'' @ inter_label interaction @ js ''| ''
        @ inter_to interaction @ [LF])"

definition emit_interaction :: "components \<Rightarrow> jsstring \<Rightarrow> Interaction \<Rightarrow> jsstring" where
  "emit_interaction components mermaidStr interaction =
     (case (map_get components (inter_from interaction), map_get components (inter_to interaction)) of
        (Some fromNode, Some toNode) \<Rightarrow> mermaidStr @ edge_line interaction
      | _ \<Rightarrow> mermaidStr)"

definition navigation_line :: "Component \<Rightarrow> jsstring" where
  "navigation_line component = js ''  User -->|navega a| '' @ comp_id component @ [LF]"

definition emit_navigation :: "jsstring \<Rightarrow> Component \<Rightarrow> jsstring" where
  "emit_navigation mermaidStr component =
     (if comp_type component = ClientPage then mermaidStr @ navigation_line component else mermaidStr)"

definition class_ids :: "components \<Rightarrow> subgraph_name \<Rightarrow> jsstring" where
  "class_ids components g =
     join [comma] (map comp_id (filter (\<lambda>c. comp_subgraph c = g) (map_values components)))"

definition styles :: "components \<Rightarrow> jsstring" where
  "styles components =
     [LF] @ js ''  %% Estilos'' @ [LF]
     @ js ''  classDef client fill:#233,stroke:#39c,stroke-width:2px,color:#fff'' @ [LF]
     @ js ''  classDef server fill:#333,stroke:#f90,stroke-width:2px,color:#fff'' @ [LF]
     @ js ''  classDef db fill:#444,stroke:#ccc,stroke-width:2px,color:#fff'' @ [LF]
     @ js ''  classDef user fill:#111,stroke:#999,stroke-width:2px,color:#fff'' @ [LF]
     @ [LF]
     @ js ''  class '' @ class_ids components Client_subgraph @ js '' client'' @ [LF]
     @ js ''  class '' @ class_ids components Server_subgraph @ js '' server'' @ [LF]
     @ js ''  class '' @ class_ids components Database_subgraph @ js '' db'' @ [LF]
     @ js ''  class '' @ class_ids components User_subgraph @ js '' user'' @ [LF]
     @ js ''  ''"

definition generateMermaidCode :: "components \<Rightarrow> Interaction list \<Rightarrow> jsstring" where
  "generateMermaidCode components interactions =
     (let mermaidStr0 = js ''graph TD'' @ [LF];
          subgraphs = foldl push_line (\<lambda>_. []) (map_values components);
          mermaidStr1 =
            foldl (emit_subgraph subgraphs) mermaidStr0
              [User_subgraph, Client_subgraph, Server_subgraph, Database_subgraph];
          mermaidStr2 = mermaidStr1 @ [LF] @ js ''  %% Interacciones'' @ [LF];
          mermaidStr3 = foldl (emit_interaction components) mermaidStr2 interactions;
          mermaidStr4 = foldl emit_navigation mermaidStr3 (map_values components)
      in mermaidStr4 @ styles components)"

section \<open>The pipeline\<close>

text \<open>
  \<open>main\<close> from the two file lists the directory walk and the reads deliver: a server
  file is its path and text, a client file its path, its path relative to the client
  directory and its text. The result is the text handed to \<open>writeFile\<close>, or the error
  that ends the run.
\<close>

definition main ::
  "(jsstring \<times> jsstring) list \<Rightarrow> (jsstring \<times> jsstring \<times> jsstring) list \<Rightarrow> error + jsstring" where
  "main serverFiles clientFiles =
     (let model1 =
            foldl (\<lambda>(components, interactions) (file, content).
                     analyzeServerFile file content components interactions)
              ([], []) serverFiles;
          model2 =
            foldl (\<lambda>(components, interactions) (file, relative, content).
                     analyzeClientFile file relative content components interactions)
              model1 clientFiles
      in case addExternalComponents (fst model2) of
           Inl e \<Rightarrow> Inl e
         | Inr components \<Rightarrow>
             (let mermaidCode = generateMermaidCode components (snd model2) in
              Inr (js ''# Diagrama de Arquitectura del Proyecto'' @ [LF, LF]
                   @ [backquote, backquote, backquote] @ js ''mermaid'' @ [LF]
                   @ mermaidCode @ [LF] @ [backquote, backquote, backquote])))"

section \<open>The run of the pipeline, step by step\<close>

text \<open>
  The run of \<open>main\<close> statement by statement: the loop over the server files, the loop
  over the client files, the external components, the rendering, and the text handed to
  \<open>writeFile\<close>; a run that raises ends in \<open>Aborted\<close>.
\<close>

definition markdownContent :: "jsstring \<Rightarrow> jsstring" where
  "markdownContent mermaidCode =
     js ''# Diagrama de Arquitectura del Proyecto'' @ [LF, LF]
     @ [backquote, backquote, backquote] @ js ''mermaid'' @ [LF]
     @ mermaidCode @ [LF] @ [backquote, backquote, backquote]"





text \<open>The model the two extraction loops leave behind.\<close>

definition extracted ::
  "(jsstring \<times> jsstring) list \<Rightarrow> (jsstring \<times> jsstring \<times> jsstring) list \<Rightarrow> components \<times> Interaction list" where
  "extracted serverFiles clientFiles =
     foldl (\<lambda>(components, interactions) (file, relative, content).
              analyzeClientFile file relative content components interactions)
       (foldl (\<lambda>(components, interactions) (file, content).
                 analyzeServerFile file content components interactions)
          ([], []) serverFiles)
       clientFiles"

section \<open>Views of the model and of the output\<close>

text \<open>
  Names for the parts of what the functions above compute, used to state the results:
  the interactions a server file contributes, and the sections of the rendered text.
\<close>

definition dependency :: "jsstring \<Rightarrow> jsstring \<Rightarrow> Interaction" where
  "dependency ident dependencyId =
     \<lparr>inter_from = ident, inter_to = dependencyId, inter_label = js ''inyecta'', inter_isAsync = None\<rparr>"

definition constructor_params :: "jsstring \<Rightarrow> jsstring list" where
  "constructor_params content =
     (case constructorMatch content of None \<Rightarrow> [] | Some captured \<Rightarrow> map trim (split comma captured))"

definition injected :: "jsstring \<Rightarrow> jsstring \<Rightarrow> Interaction list" where
  "injected ident content =
     concat (map (\<lambda>param. case depMatch param of None \<Rightarrow> [] | Some d \<Rightarrow> [dependency ident d])
               (constructor_params content))"

definition prisma_use :: "jsstring \<Rightarrow> Interaction" where
  "prisma_use ident =
     \<lparr>inter_from = ident, inter_to = js ''PrismaService'', inter_label = js ''usa'', inter_isAsync = None\<rparr>"

definition both_present :: "components \<Rightarrow> Interaction \<Rightarrow> bool" where
  "both_present components interaction \<longleftrightarrow>
     inter_from interaction \<in> map_keys components \<and> inter_to interaction \<in> map_keys components"

definition render_head :: "components \<Rightarrow> jsstring" where
  "render_head components =
     foldl (emit_subgraph (foldl push_line (\<lambda>_. []) (map_values components)))
       (js ''graph TD'' @ [LF])
       [User_subgraph, Client_subgraph, Server_subgraph, Database_subgraph]
     @ [LF] @ js ''  %% Interacciones'' @ [LF]"

definition interaction_section :: "components \<Rightarrow> Interaction list \<Rightarrow> jsstring" where
  "interaction_section components interactions =
     concat (map (\<lambda>i. if both_present components i then edge_line i else []) interactions)"

definition navigation_section :: "components \<Rightarrow> jsstring" where
  "navigation_section components =
     concat (map (\<lambda>c. if comp_type c = ClientPage then navigation_line c else [])
               (map_values components))"

text \<open>The path inside a page identifier.\<close>

definition page_path :: "jsstring \<Rightarrow> jsstring" where
  "page_path relative = replace_page (replace_backslashes relative)"



text \<open>What a pattern returns is part of the text it was given.\<close>

definition part_of_input :: "(jsstring \<Rightarrow> jsstring option) \<Rightarrow> bool" where
  "part_of_input k \<longleftrightarrow> (\<forall>s r. k s = Some r \<longrightarrow> str_includes s r)"

section \<open>Facts about the component map\<close>

lemma map_get_map_set: "map_get (map_set m k v) k' = (if k' = k then Some v else map_get m k')"
  by (induction m k v rule: map_set.induct) (auto simp: map_get_def)

lemma map_keys_map_set: "map_keys (map_set m k v) = insert k (map_keys m)"
  by (induction m k v rule: map_set.induct) (auto simp: map_keys_def)

lemma map_has_keys: "map_has m k \<longleftrightarrow> k \<in> map_keys m"
  by (simp add: map_has_def map_keys_def map_of_eq_None_iff)

lemma map_get_keys: "map_get m k \<noteq> None \<longleftrightarrow> k \<in> map_keys m"
  by (simp add: map_get_def map_keys_def map_of_eq_None_iff)

section \<open>Facts about the renderer\<close>

lemma emit_interaction_eq:
  "emit_interaction cs acc i = acc @ (if both_present cs i then edge_line i else [])"
  using map_get_keys [of cs "inter_from i"] map_get_keys [of cs "inter_to i"]
  by (auto simp: emit_interaction_def both_present_def split: option.splits)

lemma foldl_emit_interaction:
  "foldl (emit_interaction cs) acc is =
     acc @ concat (map (\<lambda>i. if both_present cs i then edge_line i else []) is)"
  by (induction "is" arbitrary: acc) (simp_all add: emit_interaction_eq)

lemma foldl_emit_navigation:
  "foldl emit_navigation acc vs =
     acc @ concat (map (\<lambda>c. if comp_type c = ClientPage then navigation_line c else []) vs)"
  by (induction vs arbitrary: acc) (simp_all add: emit_navigation_def)

lemma generateMermaidCode_sections:
  "generateMermaidCode cs is =
     render_head cs
     @ concat (map (\<lambda>i. if both_present cs i then edge_line i else []) is)
     @ concat (map (\<lambda>c. if comp_type c = ClientPage then navigation_line c else []) (map_values cs))
     @ styles cs"
  by (simp add: generateMermaidCode_def Let_def render_head_def
      foldl_emit_interaction foldl_emit_navigation del: foldl.simps)

lemma edge_line_nonempty: "edge_line i \<noteq> []"
  by (simp add: edge_line_def Let_def js_def)

section \<open>Facts about strings and patterns\<close>

lemma strip_prefix_Some: "strip_prefix l s = Some r \<longleftrightarrow> s = l @ r"
  by (induction l s rule: strip_prefix.induct) auto

lemma strip_prefix_None: "strip_prefix l s = None \<longleftrightarrow> (\<forall>r. s \<noteq> l @ r)"
  by (induction l s rule: strip_prefix.induct) auto

lemma str_includes_iff: "str_includes s sub \<longleftrightarrow> (\<exists>pre post. s = pre @ sub @ post)"
proof (induction s)
  case Nil
  then show ?case by auto
next
  case (Cons c cs)
  have "(\<exists>pre post. c # cs = pre @ sub @ post) \<longleftrightarrow>
        (\<exists>post. c # cs = sub @ post) \<or> (\<exists>pre post. cs = pre @ sub @ post)"
  proof
    assume "\<exists>pre post. c # cs = pre @ sub @ post"
    then obtain pre post where e: "c # cs = pre @ sub @ post" by blast
    show "(\<exists>post. c # cs = sub @ post) \<or> (\<exists>pre post. cs = pre @ sub @ post)"
    proof (cases pre)
      case Nil
      with e show ?thesis by auto
    next
      case (Cons a pre')
      with e have "cs = pre' @ sub @ post" by simp
      then show ?thesis by blast
    qed
  next
    assume "(\<exists>post. c # cs = sub @ post) \<or> (\<exists>pre post. cs = pre @ sub @ post)"
    then show "\<exists>pre post. c # cs = pre @ sub @ post"
    proof
      assume "\<exists>post. c # cs = sub @ post"
      then obtain post where "c # cs = [] @ sub @ post" by auto
      then show ?thesis by blast
    next
      assume "\<exists>pre post. cs = pre @ sub @ post"
      then obtain pre post where "c # cs = (c # pre) @ sub @ post" by auto
      then show ?thesis by blast
    qed
  qed
  moreover have "strip_prefix sub (c # cs) \<noteq> None \<longleftrightarrow> (\<exists>post. c # cs = sub @ post)"
    by (simp add: strip_prefix_None)
  ultimately show ?case using Cons.IH by simp
qed

lemma search_Some: "search m s = Some r \<Longrightarrow> \<exists>pre t. s = pre @ t \<and> m t = Some r"
proof (induction s)
  case Nil
  then show ?case by simp
next
  case (Cons c cs)
  show ?case
  proof (cases "m (c # cs)")
    case None
    with Cons.prems have "search m cs = Some r" by simp
    then obtain pre t where "cs = pre @ t" "m t = Some r" using Cons.IH by blast
    then have "c # cs = (c # pre) @ t \<and> m t = Some r" by simp
    then show ?thesis by blast
  next
    case (Some x)
    with Cons.prems have "c # cs = [] @ (c # cs) \<and> m (c # cs) = Some r" by simp
    then show ?thesis by blast
  qed
qed

lemma search_first: "m s = Some r \<Longrightarrow> search m s = Some r"
  by (cases s) simp_all

lemma strip_prefix_append: "strip_prefix l (l @ t) = Some t"
  by (simp add: strip_prefix_Some)

lemma lit_Some: "lit l s k = Some r \<longleftrightarrow> (\<exists>t. s = l @ t \<and> k t = Some r)"
  by (auto simp: lit_def strip_prefix_Some strip_prefix_append split: option.splits)

lemma star_Some:
  "star p s k = Some r \<Longrightarrow> \<exists>m t. s = m @ t \<and> (\<forall>c \<in> set m. p c) \<and> k m t = Some r"
proof (induction s arbitrary: k)
  case Nil
  then show ?case by simp
next
  case (Cons c cs)
  let ?k' = "\<lambda>m r. k (c # m) r"
  show ?case
  proof (cases "p c")
    case False
    with Cons.prems have "k [] (c # cs) = Some r" by simp
    then have "c # cs = [] @ (c # cs) \<and> (\<forall>x \<in> set []. p x) \<and> k [] (c # cs) = Some r" by simp
    then show ?thesis by (intro exI)
  next
    case True
    show ?thesis
    proof (cases "star p cs ?k'")
      case None
      with True Cons.prems have "k [] (c # cs) = Some r" by simp
      then have "c # cs = [] @ (c # cs) \<and> (\<forall>x \<in> set []. p x) \<and> k [] (c # cs) = Some r" by simp
      then show ?thesis by (intro exI)
    next
      case (Some x)
      with True Cons.prems have "star p cs ?k' = Some r" by simp
      from Cons.IH [OF this] obtain m t
        where "cs = m @ t" "\<forall>c \<in> set m. p c" "k (c # m) t = Some r" by auto
      with True have "c # cs = (c # m) @ t \<and> (\<forall>x \<in> set (c # m). p x) \<and> k (c # m) t = Some r"
        by simp
      then show ?thesis by (intro exI)
    qed
  qed
qed

lemma plus_Some:
  assumes "plus p s k = Some r"
  shows "\<exists>m t. s = m @ t \<and> m \<noteq> [] \<and> (\<forall>c \<in> set m. p c) \<and> k m t = Some r"
proof (cases s)
  case Nil
  with assms show ?thesis by (simp add: plus_def)
next
  case (Cons c cs)
  with assms have pc: "p c" and st: "star p cs (\<lambda>m r. k (c # m) r) = Some r"
    by (simp_all add: plus_def split: if_splits)
  from star_Some [OF st] obtain m t
    where "cs = m @ t" "\<forall>c \<in> set m. p c" "k (c # m) t = Some r" by auto
  with Cons pc have "s = (c # m) @ t \<and> c # m \<noteq> [] \<and> (\<forall>x \<in> set (c # m). p x) \<and> k (c # m) t = Some r"
    by simp
  then show ?thesis by (intro exI)
qed

text \<open>A greedy repetition whose longest attempt succeeds returns that attempt's result.\<close>

lemma star_longest:
  "\<forall>c \<in> set m. p c \<Longrightarrow> t = [] \<or> \<not> p (hd t) \<Longrightarrow> k m t = Some r \<Longrightarrow> star p (m @ t) k = Some r"
proof (induction m arbitrary: k)
  case Nil
  then show ?case by (cases t) auto
next
  case (Cons c m)
  then have "star p (m @ t) (\<lambda>m r. k (c # m) r) = Some r" by simp
  with Cons.prems show ?case by simp
qed


lemma classNameMatch_Some:
  assumes "classNameMatch content = Some name"
  shows "\<exists>pre post. content = pre @ js ''export class '' @ name @ post"
proof -
  let ?k = "\<lambda>s1. plus is_word s1 (\<lambda>name _. Some name)"
  have "search (\<lambda>s. lit (js ''export class '') s ?k) content = Some name"
    using assms by (simp add: classNameMatch_def)
  then obtain pre t where c: "content = pre @ t"
    and l: "lit (js ''export class '') t ?k = Some name"
    by (drule_tac search_Some) blast
  from l obtain t' where t: "t = js ''export class '' @ t'"
    and p: "plus is_word t' (\<lambda>name _. Some name) = Some name"
    by (subst (asm) lit_Some) blast
  from plus_Some [OF p] obtain m post where "t' = m @ post" "m = name"
    by auto
  with c t have "content = pre @ js ''export class '' @ name @ post" by simp
  then show ?thesis by blast
qed

lemma classNameMatch_includes:
  "classNameMatch content = Some name \<Longrightarrow> str_includes content name"
proof -
  assume "classNameMatch content = Some name"
  then obtain pre post where "content = pre @ js ''export class '' @ name @ post"
    using classNameMatch_Some by blast
  then have "content = (pre @ js ''export class '') @ name @ post" by simp
  then show ?thesis unfolding str_includes_iff by blast
qed

section \<open>Facts about the server extractor\<close>

lemma foldl_push_dependency:
  "foldl (push_dependency ident) acc ps =
     acc @ concat (map (\<lambda>param. case depMatch param of None \<Rightarrow> [] | Some d \<Rightarrow> [dependency ident d]) ps)"
  by (induction ps arbitrary: acc) (simp_all add: push_dependency_def dependency_def split: option.splits)

lemma analyzeServerFile_interactions:
  assumes "classNameMatch content = Some ident"
  shows "snd (analyzeServerFile filePath content cs is) =
           is @ injected ident content
              @ (if str_includes content (js ''PrismaService'') then [prisma_use ident] else [])"
  using assms
  by (simp add: analyzeServerFile_def Let_def injected_def constructor_params_def
      foldl_push_dependency prisma_use_def split: option.splits)

lemma analyzeServerFile_components:
  assumes "classNameMatch content = Some ident"
  shows "fst (analyzeServerFile filePath content cs is) =
     (case controllerMatch content of
        Some captured \<Rightarrow>
          map_set cs ident
            \<lparr>comp_id = ident, comp_type = Controller,
             comp_label = ident @ js ''<br><small>'' @ js ''/api'' @ captured @ js ''</small>'',
             comp_filePath = filePath, comp_subgraph = Server_subgraph\<rparr>
      | None \<Rightarrow>
          if serviceMatch content then
            map_set cs ident
              \<lparr>comp_id = ident, comp_type = Service, comp_label = ident,
               comp_filePath = filePath, comp_subgraph = Server_subgraph\<rparr>
          else if gatewayMatch content then
            map_set cs ident
              \<lparr>comp_id = ident, comp_type = Gateway,
               comp_label = ident @ js ''<br><small>WebSocket</small>'',
               comp_filePath = filePath, comp_subgraph = Server_subgraph\<rparr>
          else cs)"
  using assms by (simp add: analyzeServerFile_def Let_def split: option.splits)

section \<open>The parameter pattern on a well-formed parameter\<close>




lemma search_append:
  assumes "\<forall>i < length pre. m (drop i pre @ s) = None \<or> m (drop i pre @ s) = Some r"
    and "m s = Some r"
  shows "search m (pre @ s) = Some r"
  using assms
proof (induction pre)
  case Nil
  then show ?case by (simp add: search_first)
next
  case (Cons c pre)
  have "\<forall>i < length pre. m (drop i pre @ s) = None \<or> m (drop i pre @ s) = Some r"
  proof (intro allI impI)
    fix i assume "i < length pre"
    then have "Suc i < length (c # pre)" by simp
    with Cons.prems(1) have "m (drop (Suc i) (c # pre) @ s) = None \<or> m (drop (Suc i) (c # pre) @ s) = Some r"
      by blast
    then show "m (drop i pre @ s) = None \<or> m (drop i pre @ s) = Some r" by simp
  qed
  with Cons have rec: "search m (pre @ s) = Some r" by blast
  from Cons.prems(1) have "m (drop 0 (c # pre) @ s) = None \<or> m (drop 0 (c # pre) @ s) = Some r"
    by (metis length_greater_0_conv list.distinct(1))
  then have "m (c # pre @ s) = None \<or> m (c # pre @ s) = Some r" by simp
  with rec show ?case by auto
qed










section \<open>What the patterns capture is part of the file\<close>

lemma str_includes_append: "str_includes t r \<Longrightarrow> str_includes (pre @ t @ post) r"
proof -
  assume "str_includes t r"
  then obtain a b where "t = a @ r @ b" unfolding str_includes_iff by blast
  then have "pre @ t @ post = (pre @ a) @ r @ (b @ post)" by simp
  then show ?thesis unfolding str_includes_iff by blast
qed

lemma str_includes_suffix: "str_includes t r \<Longrightarrow> str_includes (pre @ t) r"
  using str_includes_append [of t r pre "[]"] by simp

lemma str_includes_trans: "str_includes b a \<Longrightarrow> str_includes c b \<Longrightarrow> str_includes c a"
proof -
  assume "str_includes b a" and "str_includes c b"
  then obtain p q where "c = p @ b @ q" unfolding str_includes_iff by blast
  with \<open>str_includes b a\<close> show ?thesis using str_includes_append by simp
qed

lemma str_includes_refl: "str_includes s s"
  unfolding str_includes_iff by (intro exI [of _ "[]"]) simp

lemma split_nonempty: "split d s \<noteq> []"
  by (induction s) (auto split: list.splits)

lemma join_Cons_head: "join sep ((c # x) # xs) = c # join sep (x # xs)"
  by (cases xs) simp_all

lemma join_split: "join [d] (split d s) = s"
proof (induction s)
  case Nil
  then show ?case by simp
next
  case (Cons c cs)
  obtain x xs where sp: "split d cs = x # xs"
    using split_nonempty [of d cs] by (cases "split d cs") auto
  with Cons.IH have "join [d] (x # xs) = cs" by simp
  with sp show ?case by (simp add: join_Cons_head)
qed

lemma join_piece: "p \<in> set ps \<Longrightarrow> str_includes (join sep ps) p"
proof (induction sep ps rule: join.induct)
  case (1 sep)
  then show ?case by simp
next
  case (2 sep x)
  then show ?case by (simp add: str_includes_refl)
next
  case (3 sep x y ys)
  from "3.prems" have "p = x \<or> p \<in> set (y # ys)" by auto
  then show ?case
  proof
    assume "p = x"
    then have "join sep (x # y # ys) = [] @ p @ (sep @ join sep (y # ys))" by simp
    then show ?thesis unfolding str_includes_iff by blast
  next
    assume "p \<in> set (y # ys)"
    then have "str_includes (join sep (y # ys)) p" by (rule "3.IH")
    then show ?thesis using str_includes_suffix [of "join sep (y # ys)" p "x @ sep"] by simp
  qed
qed

lemma split_piece: "p \<in> set (split d s) \<Longrightarrow> str_includes s p"
  using join_piece [of p "split d s" "[d]"] by (simp add: join_split)

lemma trim_includes: "str_includes s (trim s)"
proof -
  let ?a = "takeWhile is_space s" and ?b = "dropWhile is_space s"
  have "rev ?b = takeWhile is_space (rev ?b) @ dropWhile is_space (rev ?b)" by simp
  then have "?b = rev (dropWhile is_space (rev ?b)) @ rev (takeWhile is_space (rev ?b))"
    by (metis rev_append rev_rev_ident)
  then have "?b = trim s @ rev (takeWhile is_space (rev ?b))" by (simp add: trim_def)
  moreover have "s = ?a @ ?b" by simp
  ultimately have "s = ?a @ trim s @ rev (takeWhile is_space (rev ?b))" by metis
  then show ?thesis unfolding str_includes_iff by blast
qed

lemma constructorMatch_includes:
  assumes "constructorMatch content = Some captured"
  shows "str_includes content captured"
proof -
  let ?k2 = "\<lambda>params s2. lit [rparen] s2 (\<lambda>_. Some params)"
  let ?k1 = "\<lambda>s1. star (\<lambda>c. c \<noteq> rparen) s1 ?k2"
  have "search (\<lambda>s. lit (js ''constructor('') s ?k1) content = Some captured"
    using assms by (simp add: constructorMatch_def)
  then obtain pre t where c: "content = pre @ t"
    and l: "lit (js ''constructor('') t ?k1 = Some captured"
    by (drule_tac search_Some) blast
  from l obtain t' where t: "t = js ''constructor('' @ t'"
    and p: "star (\<lambda>c. c \<noteq> rparen) t' ?k2 = Some captured"
    by (subst (asm) lit_Some) blast
  from star_Some [OF p] obtain m post where "t' = m @ post" "lit [rparen] post (\<lambda>_. Some m) = Some captured"
    by auto
  then have "t' = captured @ post" by (auto simp: lit_Some)
  with c t have "content = (pre @ js ''constructor('') @ captured @ post" by simp
  then show ?thesis unfolding str_includes_iff by blast
qed

lemma part_lit: "part_of_input k \<Longrightarrow> part_of_input (\<lambda>s. lit l s k)"
  unfolding part_of_input_def lit_Some using str_includes_suffix by blast

lemma part_star: 
  assumes "part_of_input k"
  shows "part_of_input (\<lambda>s. star p s (\<lambda>_. k))"
  unfolding part_of_input_def
proof (intro allI impI)
  fix s r assume st: "star p s (\<lambda>_. k) = Some r"
  from star_Some [OF st] obtain m t where "s = m @ t" "k t = Some r" by auto
  with assms show "str_includes s r"
    unfolding part_of_input_def using str_includes_suffix by blast
qed

lemma part_plus: 
  assumes "part_of_input k"
  shows "part_of_input (\<lambda>s. plus p s (\<lambda>_. k))"
  unfolding part_of_input_def
proof (intro allI impI)
  fix s r assume st: "plus p s (\<lambda>_. k) = Some r"
  from plus_Some [OF st] obtain m t where "s = m @ t" "k t = Some r" by auto
  with assms show "str_includes s r"
    unfolding part_of_input_def using str_includes_suffix by blast
qed

lemma part_opt:
  "part_of_input k \<Longrightarrow> part_of_input (\<lambda>s. m s k) \<Longrightarrow> part_of_input (\<lambda>s. opt m s k)"
  unfolding part_of_input_def opt_def by (auto split: option.splits)

lemma part_alt:
  "part_of_input (\<lambda>s. m1 s k) \<Longrightarrow> part_of_input (\<lambda>s. m2 s k) \<Longrightarrow> part_of_input (\<lambda>s. alt m1 m2 s k)"
  unfolding part_of_input_def alt_def by (auto split: option.splits)

lemma part_capture: "part_of_input (\<lambda>s. plus p s (\<lambda>captured _. Some captured))"
  unfolding part_of_input_def
proof (intro allI impI)
  fix s r assume st: "plus p s (\<lambda>captured _. Some captured) = Some r"
  from plus_Some [OF st] obtain m t where "s = m @ t" "m = r" by auto
  then have "s = [] @ r @ t" by simp
  then show "str_includes s r" unfolding str_includes_iff by blast
qed

lemma part_search: "part_of_input k \<Longrightarrow> part_of_input (search k)"
  unfolding part_of_input_def using search_Some str_includes_suffix by metis

lemma depMatch_includes: "depMatch param = Some d \<Longrightarrow> str_includes param d"
proof -
  have "part_of_input depMatch"
    unfolding depMatch_def [abs_def]
    by (intro part_search part_opt part_alt part_lit part_star part_plus part_capture)
  then show "depMatch param = Some d \<Longrightarrow> str_includes param d"
    unfolding part_of_input_def by blast
qed

lemma injected_target_includes:
  assumes "i \<in> set (injected ident content)"
  shows "str_includes content (inter_to i)"
proof -
  from assms obtain param where p: "param \<in> set (constructor_params content)"
    and ip: "i \<in> set (case depMatch param of None \<Rightarrow> [] | Some d \<Rightarrow> [dependency ident d])"
    by (auto simp: injected_def)
  then obtain d where d: "depMatch param = Some d" and i: "i = dependency ident d"
    by (cases "depMatch param") auto
  from p obtain captured where c: "constructorMatch content = Some captured"
    and "param \<in> set (map trim (split comma captured))"
    by (cases "constructorMatch content") (auto simp: constructor_params_def)
  then obtain piece where pc: "piece \<in> set (split comma captured)" and t: "param = trim piece"
    by auto
  have "str_includes param d" using d by (rule depMatch_includes)
  moreover have "str_includes piece param" using t trim_includes by simp
  moreover have "str_includes captured piece" using pc by (rule split_piece)
  moreover have "str_includes content captured" using c by (rule constructorMatch_includes)
  ultimately have "str_includes content d" using str_includes_trans by blast
  with i show ?thesis by (simp add: dependency_def)
qed

lemma injected_label: "i \<in> set (injected ident content) \<Longrightarrow> inter_label i = js ''inyecta''"
  by (auto simp: injected_def dependency_def split: option.splits)

lemma rendered_edge_occurs:
  assumes "i \<in> set is" and "both_present cs i"
  shows "\<exists>pre post. generateMermaidCode cs is = pre @ edge_line i @ post"
proof -
  let ?f = "\<lambda>i. if both_present cs i then edge_line i else []"
  from assms(1) obtain xs ys where "is = xs @ i # ys" by (auto dest: split_list)
  with assms(2) have "concat (map ?f is) = concat (map ?f xs) @ edge_line i @ concat (map ?f ys)"
    by simp
  then have "generateMermaidCode cs is =
      (render_head cs @ concat (map ?f xs)) @ edge_line i
      @ (concat (map ?f ys)
         @ concat (map (\<lambda>c. if comp_type c = ClientPage then navigation_line c else []) (map_values cs))
         @ styles cs)"
    by (simp add: generateMermaidCode_sections)
  then show ?thesis by blast
qed

section \<open>Further facts about the extractors\<close>

lemma search_reaches: "m t \<noteq> None \<Longrightarrow> search m (pre @ t) \<noteq> None"
proof (induction pre)
  case Nil
  then show ?case by (cases t) auto
next
  case (Cons c pre)
  then show ?case by (cases "m (c # pre @ t)") auto
qed

lemma star_total: "(\<And>m r. k m r \<noteq> None) \<Longrightarrow> star p s k \<noteq> None"
proof (induction s arbitrary: k)
  case Nil
  then show ?case by simp
next
  case (Cons c cs)
  then show ?case by (cases "star p cs (\<lambda>m r. k (c # m) r)") auto
qed

lemma classNameMatch_word:
  assumes "classNameMatch content = Some name"
  shows "\<exists>pre c post. content = pre @ js ''export class '' @ c # post \<and> is_word c"
proof -
  let ?k = "\<lambda>s1. plus is_word s1 (\<lambda>name _. Some name)"
  have "search (\<lambda>s. lit (js ''export class '') s ?k) content = Some name"
    using assms by (simp add: classNameMatch_def)
  then obtain pre t where c: "content = pre @ t"
    and l: "lit (js ''export class '') t ?k = Some name"
    by (drule_tac search_Some) blast
  from l obtain t' where t: "t = js ''export class '' @ t'"
    and p: "plus is_word t' (\<lambda>name _. Some name) = Some name"
    by (subst (asm) lit_Some) blast
  from plus_Some [OF p] obtain m post where m: "t' = m @ post" "m \<noteq> []" "\<forall>c \<in> set m. is_word c"
    by auto
  then obtain x xs where "m = x # xs" by (cases m) auto
  with c t m have "content = pre @ js ''export class '' @ x # (xs @ post) \<and> is_word x" by simp
  then show ?thesis by blast
qed

text \<open>
  No class name is found exactly when the text has no \<open>export class\<close> followed by a
  space and a word character.
\<close>

lemma classNameMatch_None_iff:
  "classNameMatch content = None \<longleftrightarrow>
     \<not> (\<exists>pre c post. content = pre @ js ''export class '' @ c # post \<and> is_word c)"
proof
  assume "classNameMatch content = None"
  show "\<not> (\<exists>pre c post. content = pre @ js ''export class '' @ c # post \<and> is_word c)"
  proof
    assume "\<exists>pre c post. content = pre @ js ''export class '' @ c # post \<and> is_word c"
    then obtain pre c post where e: "content = pre @ (js ''export class '' @ c # post)" and w: "is_word c"
      by auto
    let ?m = "\<lambda>s. lit (js ''export class '') s (\<lambda>s1. plus is_word s1 (\<lambda>name _. Some name))"
    have "star is_word post (\<lambda>m r. Some (c # m)) \<noteq> None"
      by (rule star_total) simp
    with w have "?m (js ''export class '' @ c # post) \<noteq> None"
      by (simp add: lit_def strip_prefix_append plus_def)
    then have "search ?m (pre @ (js ''export class '' @ c # post)) \<noteq> None"
      by (rule search_reaches)
    with e have "classNameMatch content \<noteq> None" by (simp add: classNameMatch_def)
    with \<open>classNameMatch content = None\<close> show False by simp
  qed
next
  assume n: "\<not> (\<exists>pre c post. content = pre @ js ''export class '' @ c # post \<and> is_word c)"
  show "classNameMatch content = None"
  proof (cases "classNameMatch content")
    case None
    then show ?thesis .
  next
    case (Some name)
    with n show ?thesis using classNameMatch_word by blast
  qed
qed

text \<open>
  The constructor pattern returns the parameter text of the first \<open>constructor(\<close> of
  the file, up to the first closing parenthesis.
\<close>

lemma constructorMatch_first:
  assumes "rparen \<notin> set params"
    and "\<forall>i < length pre.
           strip_prefix (js ''constructor('') (drop i pre @ js ''constructor('' @ params @ rparen # post) = None"
  shows "constructorMatch (pre @ js ''constructor('' @ params @ rparen # post) = Some params"
proof -
  let ?k = "\<lambda>s1. star (\<lambda>c. c \<noteq> rparen) s1 (\<lambda>params s2. lit [rparen] s2 (\<lambda>_. Some params))"
  let ?m = "\<lambda>s. lit (js ''constructor('') s ?k"
  let ?s = "js ''constructor('' @ params @ rparen # post"
  have "lit [rparen] (rparen # post) (\<lambda>_. Some params) = Some params"
    by (simp add: lit_def)
  with assms(1) have "star (\<lambda>c. c \<noteq> rparen) (params @ rparen # post)
      (\<lambda>params s2. lit [rparen] s2 (\<lambda>_. Some params)) = Some params"
    by (intro star_longest) auto
  then have here: "?m ?s = Some params"
    by (simp add: lit_def strip_prefix_append)
  have "\<forall>i < length pre. ?m (drop i pre @ ?s) = None \<or> ?m (drop i pre @ ?s) = Some params"
    using assms(2) by (simp add: lit_def)
  then have "search ?m (pre @ ?s) = Some params"
    using here by (rule search_append)
  then show ?thesis by (simp add: constructorMatch_def)
qed

lemma replace_page_suffix: "replace_page (p @ js ''/page.tsx'') = p"
proof (induction p)
  case Nil
  then show ?case by (simp add: js_def)
next
  case (Cons c p)
  have "length (c # p @ js ''/page.tsx'') \<noteq> length (js ''/page.tsx'')" by simp
  then have "c # p @ js ''/page.tsx'' \<noteq> js ''/page.tsx''" by metis
  with Cons show ?case by simp
qed

lemma replace_page_other: "\<forall>p. s \<noteq> p @ js ''/page.tsx'' \<Longrightarrow> replace_page s = s"
proof (induction s)
  case Nil
  then show ?case by simp
next
  case (Cons c s)
  have "\<forall>p. s \<noteq> p @ js ''/page.tsx''"
  proof (intro allI notI)
    fix p assume "s = p @ js ''/page.tsx''"
    then have "c # s = (c # p) @ js ''/page.tsx''" by simp
    with Cons.prems show False by blast
  qed
  then have "replace_page s = s" by (rule Cons.IH)
  moreover from Cons.prems have "c # s \<noteq> [] @ js ''/page.tsx''" by blast
  ultimately show ?case by simp
qed

lemma analyzeClientFile_components:
  "fst (analyzeClientFile filePath relative content cs is) =
     map_set cs (js ''Page('' @ (if page_path relative = [] then js ''/'' else page_path relative) @ js '')'')
       \<lparr>comp_id = js ''Page('' @ (if page_path relative = [] then js ''/'' else page_path relative) @ js '')'',
        comp_type = ClientPage, comp_label = js ''/'' @ page_path relative,
        comp_filePath = filePath, comp_subgraph = Client_subgraph\<rparr>"
  by (simp add: analyzeClientFile_def Let_def page_path_def)

lemma addExternalComponents_absent:
  assumes "js ''PrismaService'' \<notin> map_keys cs"
  shows "\<exists>cs'. addExternalComponents cs = Inr cs'
     \<and> map_keys cs' = insert (js ''User'') (insert (js ''Database'') (map_keys cs))
     \<and> (\<exists>u. map_get cs' (js ''User'') = Some u \<and> comp_type u = User \<and> comp_subgraph u = User_subgraph)
     \<and> (\<exists>d. map_get cs' (js ''Database'') = Some d \<and> comp_type d = Database \<and> comp_subgraph d = Database_subgraph)"
proof -
  have ne: "js ''PrismaService'' \<noteq> js ''User''" "js ''PrismaService'' \<noteq> js ''Database''"
    "js ''User'' \<noteq> js ''Database''"
    by (simp_all add: js_def)
  with assms show ?thesis
    by (auto simp: addExternalComponents_def Let_def map_has_keys map_keys_map_set map_get_map_set)
qed

lemma addExternalComponents_present:
  assumes "js ''PrismaService'' \<in> map_keys cs"
  shows "addExternalComponents cs = Inl ReferenceError"
  using assms by (simp add: addExternalComponents_def Let_def map_has_keys map_keys_map_set)

section \<open>Facts about the run of the pipeline\<close>

lemma main_extracted:
  "main serverFiles clientFiles =
     (case addExternalComponents (fst (extracted serverFiles clientFiles)) of
        Inl e \<Rightarrow> Inl e
      | Inr components \<Rightarrow>
          Inr (markdownContent (generateMermaidCode components (snd (extracted serverFiles clientFiles)))))"
  unfolding main_def extracted_def markdownContent_def Let_def by (simp split: sum.splits)








section \<open>What the extraction loops keep\<close>

lemma analyzeServerFile_keeps_keys:
  "map_keys cs \<subseteq> map_keys (fst (analyzeServerFile filePath content cs is))"
proof (cases "classNameMatch content")
  case None
  then show ?thesis by (simp add: analyzeServerFile_def)
next
  case (Some ident)
  then show ?thesis
    by (auto simp: analyzeServerFile_components map_keys_map_set split: option.splits)
qed

lemma analyzeServerFile_keeps_interactions:
  "set is \<subseteq> set (snd (analyzeServerFile filePath content cs is))"
proof (cases "classNameMatch content")
  case None
  then show ?thesis by (simp add: analyzeServerFile_def)
next
  case (Some ident)
  then show ?thesis by (simp add: analyzeServerFile_interactions)
qed

lemma analyzeClientFile_keeps_keys:
  "map_keys cs \<subseteq> map_keys (fst (analyzeClientFile filePath relative content cs is))"
  by (auto simp: analyzeClientFile_components map_keys_map_set)

lemma foldl_push_fetch_keeps: "set is \<subseteq> set (foldl (push_fetch ident cs) is captures)"
proof (induction captures arbitrary: "is")
  case Nil
  then show ?case by simp
next
  case (Cons c captures)
  have "set is \<subseteq> set (push_fetch ident cs is c)"
    by (auto simp: push_fetch_def Let_def split: option.splits)
  with Cons [of "push_fetch ident cs is c"] show ?case by auto
qed

lemma analyzeClientFile_keeps_interactions:
  "set is \<subseteq> set (snd (analyzeClientFile filePath relative content cs is))"
proof -
  have "x \<in> set is \<Longrightarrow> x \<in> set (foldl (push_fetch ident cs1) is (matchAll_fetch content))"
    for x ident cs1
    using foldl_push_fetch_keeps [of "is" ident cs1 "matchAll_fetch content"] by blast
  then show ?thesis
    by (auto simp: analyzeClientFile_def Let_def simp del: matchAll_fetch.simps split: option.splits)
qed

lemma server_loop_keeps:
  "map_keys cs \<subseteq> map_keys (fst (foldl (\<lambda>(components, interactions) (file, content).
        analyzeServerFile file content components interactions) (cs, is) serverFiles))
   \<and> set is \<subseteq> set (snd (foldl (\<lambda>(components, interactions) (file, content).
        analyzeServerFile file content components interactions) (cs, is) serverFiles))"
proof (induction serverFiles arbitrary: cs "is")
  case Nil
  then show ?case by simp
next
  case (Cons f serverFiles)
  obtain path content where f: "f = (path, content)" by (cases f)
  obtain c' i' where a: "analyzeServerFile path content cs is = (c', i')"
    by (cases "analyzeServerFile path content cs is")
  from a have "map_keys cs \<subseteq> map_keys c'" "set is \<subseteq> set i'"
    using analyzeServerFile_keeps_keys [of cs path content "is"]
      analyzeServerFile_keeps_interactions [of "is" path content cs] by simp_all
  with Cons [of c' i'] show ?case by (auto simp: f a)
qed

lemma client_loop_keeps:
  "map_keys cs \<subseteq> map_keys (fst (foldl (\<lambda>(components, interactions) (file, relative, content).
        analyzeClientFile file relative content components interactions) (cs, is) clientFiles))
   \<and> set is \<subseteq> set (snd (foldl (\<lambda>(components, interactions) (file, relative, content).
        analyzeClientFile file relative content components interactions) (cs, is) clientFiles))"
proof (induction clientFiles arbitrary: cs "is")
  case Nil
  then show ?case by simp
next
  case (Cons f clientFiles)
  obtain path relative content where f: "f = (path, relative, content)" by (cases f)
  obtain c' i' where a: "analyzeClientFile path relative content cs is = (c', i')"
    by (cases "analyzeClientFile path relative content cs is")
  from a have "map_keys cs \<subseteq> map_keys c'" "set is \<subseteq> set i'"
    using analyzeClientFile_keeps_keys [of cs path relative content "is"]
      analyzeClientFile_keeps_interactions [of "is" path relative content cs] by simp_all
  with Cons [of c' i'] show ?case by (auto simp: f a)
qed

lemma analyzeServerFile_prisma_self:
  assumes "classNameMatch content = Some (js ''PrismaService'')"
  shows "snd (analyzeServerFile filePath content cs is) =
           is @ injected (js ''PrismaService'') content
           @ [\<lparr>inter_from = js ''PrismaService'', inter_to = js ''PrismaService'',
               inter_label = js ''usa'', inter_isAsync = None\<rparr>]"
proof -
  have "str_includes content (js ''PrismaService'')"
    using assms by (rule classNameMatch_includes)
  then show ?thesis
    by (simp add: analyzeServerFile_interactions [OF assms] prisma_use_def)
qed

lemma analyzeServerFile_classified_key:
  assumes "classNameMatch content = Some ident"
    and "controllerMatch content \<noteq> None \<or> serviceMatch content \<or> gatewayMatch content"
  shows "ident \<in> map_keys (fst (analyzeServerFile filePath content cs is))"
  using assms(2)
  by (auto simp: analyzeServerFile_components [OF assms(1)] map_keys_map_set split: option.splits)

lemma main_aborts_with_prisma:
  assumes "js ''PrismaService'' \<in> map_keys (fst (extracted serverFiles clientFiles))"
  shows "main serverFiles clientFiles = Inl ReferenceError"
  by (simp add: main_extracted addExternalComponents_present [OF assms])

section \<open>The renderer's edges\<close>

text \<open>
  C1. The rendered text is the head (the subgraph blocks and the comment line), then for
  each interaction, in order, its edge line when both its source and its target are keys
  of the component map and nothing otherwise, then the navigation lines and the styles.
  An edge line is never empty, so an interaction contributes text exactly when both
  endpoints are keys; the renderer has no failing branch.
\<close>

theorem edge_emitted_iff_both_endpoints:
  "generateMermaidCode components interactions =
     render_head components
     @ concat (map (\<lambda>i. if inter_from i \<in> map_keys components \<and> inter_to i \<in> map_keys components
                          then edge_line i else []) interactions)
     @ navigation_section components @ styles components
   \<and> (\<forall>i. edge_line i \<noteq> [])"
  by (simp add: generateMermaidCode_sections both_present_def navigation_section_def
      edge_line_nonempty)

text \<open>
  Three interactions over the components \<open>A\<close> and \<open>B\<close>: the one with a missing target
  and the one with a missing source leave no text.
\<close>

theorem edge_emitted_iff_both_endpoints_witness:
  "generateMermaidCode
     [(js ''A'', \<lparr>comp_id = js ''A'', comp_type = Service, comp_label = js ''A'',
                  comp_filePath = [], comp_subgraph = Server_subgraph\<rparr>),
      (js ''B'', \<lparr>comp_id = js ''B'', comp_type = Service, comp_label = js ''B'',
                  comp_filePath = [], comp_subgraph = Server_subgraph\<rparr>)]
     [\<lparr>inter_from = js ''A'', inter_to = js ''Z'', inter_label = js ''inyecta'', inter_isAsync = None\<rparr>,
      \<lparr>inter_from = js ''A'', inter_to = js ''B'', inter_label = js ''inyecta'', inter_isAsync = None\<rparr>,
      \<lparr>inter_from = js ''Z'', inter_to = js ''B'', inter_label = js ''inyecta'', inter_isAsync = None\<rparr>]
   = render_head
       [(js ''A'', \<lparr>comp_id = js ''A'', comp_type = Service, comp_label = js ''A'',
                    comp_filePath = [], comp_subgraph = Server_subgraph\<rparr>),
        (js ''B'', \<lparr>comp_id = js ''B'', comp_type = Service, comp_label = js ''B'',
                    comp_filePath = [], comp_subgraph = Server_subgraph\<rparr>)]
     @ js ''  A -->|inyecta| B'' @ [LF]
     @ navigation_section
       [(js ''A'', \<lparr>comp_id = js ''A'', comp_type = Service, comp_label = js ''A'',
                    comp_filePath = [], comp_subgraph = Server_subgraph\<rparr>),
        (js ''B'', \<lparr>comp_id = js ''B'', comp_type = Service, comp_label = js ''B'',
                    comp_filePath = [], comp_subgraph = Server_subgraph\<rparr>)]
     @ styles
       [(js ''A'', \<lparr>comp_id = js ''A'', comp_type = Service, comp_label = js ''A'',
                    comp_filePath = [], comp_subgraph = Server_subgraph\<rparr>),
        (js ''B'', \<lparr>comp_id = js ''B'', comp_type = Service, comp_label = js ''B'',
                    comp_filePath = [], comp_subgraph = Server_subgraph\<rparr>)]"
  using edge_emitted_iff_both_endpoints
    [of "[(js ''A'', \<lparr>comp_id = js ''A'', comp_type = Service, comp_label = js ''A'',
                  comp_filePath = [], comp_subgraph = Server_subgraph\<rparr>),
      (js ''B'', \<lparr>comp_id = js ''B'', comp_type = Service, comp_label = js ''B'',
                  comp_filePath = [], comp_subgraph = Server_subgraph\<rparr>)]"
      "[\<lparr>inter_from = js ''A'', inter_to = js ''Z'', inter_label = js ''inyecta'', inter_isAsync = None\<rparr>,
      \<lparr>inter_from = js ''A'', inter_to = js ''B'', inter_label = js ''inyecta'', inter_isAsync = None\<rparr>,
      \<lparr>inter_from = js ''Z'', inter_to = js ''B'', inter_label = js ''inyecta'', inter_isAsync = None\<rparr>]"]
  by (simp add: map_keys_def edge_line_def js_def)

text \<open>
  C8. After the head and the interaction lines, the rendered text has, for each
  component of the map in order, the line \<open>User -->|navega a| <id>\<close> when the
  component is a client page and nothing otherwise; these lines are computed from the
  component map alone, whatever the interaction list holds.
\<close>

theorem navigation_edge_per_page:
  "generateMermaidCode components interactions =
     render_head components @ interaction_section components interactions
     @ concat (map (\<lambda>c. if comp_type c = ClientPage
                          then js ''  User -->|navega a| '' @ comp_id c @ [LF] else [])
                 (map_values components))
     @ styles components"
  by (simp add: generateMermaidCode_sections interaction_section_def navigation_line_def
      cong: if_cong)

text \<open>
  With an interaction from \<open>User\<close> to the page already in the list, the line appears
  twice: once for the interaction, once for the page.
\<close>

theorem navigation_edge_per_page_witness:
  "generateMermaidCode
     [(js ''User'', \<lparr>comp_id = js ''User'', comp_type = User, comp_label = js ''U'',
                     comp_filePath = [], comp_subgraph = User_subgraph\<rparr>),
      (js ''Page(d)'', \<lparr>comp_id = js ''Page(d)'', comp_type = ClientPage, comp_label = js ''/d'',
                        comp_filePath = [], comp_subgraph = Client_subgraph\<rparr>)]
     [\<lparr>inter_from = js ''User'', inter_to = js ''Page(d)'', inter_label = js ''navega a'',
       inter_isAsync = None\<rparr>]
   = render_head
       [(js ''User'', \<lparr>comp_id = js ''User'', comp_type = User, comp_label = js ''U'',
                       comp_filePath = [], comp_subgraph = User_subgraph\<rparr>),
        (js ''Page(d)'', \<lparr>comp_id = js ''Page(d)'', comp_type = ClientPage, comp_label = js ''/d'',
                          comp_filePath = [], comp_subgraph = Client_subgraph\<rparr>)]
     @ js ''  User -->|navega a| Page(d)'' @ [LF]
     @ js ''  User -->|navega a| Page(d)'' @ [LF]
     @ styles
       [(js ''User'', \<lparr>comp_id = js ''User'', comp_type = User, comp_label = js ''U'',
                       comp_filePath = [], comp_subgraph = User_subgraph\<rparr>),
        (js ''Page(d)'', \<lparr>comp_id = js ''Page(d)'', comp_type = ClientPage, comp_label = js ''/d'',
                          comp_filePath = [], comp_subgraph = Client_subgraph\<rparr>)]"
  using navigation_edge_per_page
    [of "[(js ''User'', \<lparr>comp_id = js ''User'', comp_type = User, comp_label = js ''U'',
                     comp_filePath = [], comp_subgraph = User_subgraph\<rparr>),
      (js ''Page(d)'', \<lparr>comp_id = js ''Page(d)'', comp_type = ClientPage, comp_label = js ''/d'',
                        comp_filePath = [], comp_subgraph = Client_subgraph\<rparr>)]"
      "[\<lparr>inter_from = js ''User'', inter_to = js ''Page(d)'', inter_label = js ''navega a'',
       inter_isAsync = None\<rparr>]"]
  by (simp add: interaction_section_def both_present_def map_keys_def map_values_def
      edge_line_def js_def)

section \<open>The server extractor on one file\<close>

text \<open>
  C6. When the text of a server file has no exported class declaration (the class-name
  pattern finds nothing), the extractor returns the component map and the interaction
  list it was given.
\<close>

theorem no_class_no_effect:
  "classNameMatch content = None \<Longrightarrow>
   analyzeServerFile filePath content components interactions = (components, interactions)"
  by (simp add: analyzeServerFile_def)

text \<open>A class that is not exported, with a marker, a constructor and the service name.\<close>

theorem no_class_no_effect_witness:
  "classNameMatch (js ''@Injectable() class Helper { constructor(private db: PrismaService) {} }'') = None
   \<and> analyzeServerFile (js ''helper.ts'')
        (js ''@Injectable() class Helper { constructor(private db: PrismaService) {} }'') [] []
      = ([], [])"
proof -
  have h: "classNameMatch (js ''@Injectable() class Helper { constructor(private db: PrismaService) {} }'') = None"
    by code_simp
  show ?thesis using h no_class_no_effect [OF h, of "js ''helper.ts''" "[]" "[]"] by simp
qed

text \<open>
  C3. For a server file with an exported class \<open>ident\<close>: when the route marker matches,
  the component stored under \<open>ident\<close> is a Controller whose label is the name, a line
  break and \<open>/api\<close> followed by the captured string; otherwise, when the injectable
  marker matches, it is a Service labelled by the name; otherwise, when the gateway
  marker matches, it is a Gateway with the sub-label \<open>WebSocket\<close>; otherwise the
  component map is unchanged. No other key of the map changes.
\<close>

theorem server_classification:
  assumes "classNameMatch content = Some ident"
  shows "(\<forall>captured. controllerMatch content = Some captured \<longrightarrow>
            map_get (fst (analyzeServerFile filePath content components interactions)) ident =
              Some \<lparr>comp_id = ident, comp_type = Controller,
                    comp_label = ident @ js ''<br><small>'' @ js ''/api'' @ captured @ js ''</small>'',
                    comp_filePath = filePath, comp_subgraph = Server_subgraph\<rparr>)
       \<and> (controllerMatch content = None \<and> serviceMatch content \<longrightarrow>
            map_get (fst (analyzeServerFile filePath content components interactions)) ident =
              Some \<lparr>comp_id = ident, comp_type = Service, comp_label = ident,
                    comp_filePath = filePath, comp_subgraph = Server_subgraph\<rparr>)
       \<and> (controllerMatch content = None \<and> \<not> serviceMatch content \<and> gatewayMatch content \<longrightarrow>
            map_get (fst (analyzeServerFile filePath content components interactions)) ident =
              Some \<lparr>comp_id = ident, comp_type = Gateway,
                    comp_label = ident @ js ''<br><small>WebSocket</small>'',
                    comp_filePath = filePath, comp_subgraph = Server_subgraph\<rparr>)
       \<and> (controllerMatch content = None \<and> \<not> serviceMatch content \<and> \<not> gatewayMatch content \<longrightarrow>
            fst (analyzeServerFile filePath content components interactions) = components)
       \<and> (\<forall>k. k \<noteq> ident \<longrightarrow>
            map_get (fst (analyzeServerFile filePath content components interactions)) k =
              map_get components k)"
  by (simp add: analyzeServerFile_components [OF assms] map_get_map_set split: option.splits)

text \<open>
  Four files: all three markers (Controller wins), the gateway marker written before the
  injectable one (Service wins), the gateway marker alone, and no marker.
\<close>

theorem server_classification_witness:
  "map_get (fst (analyzeServerFile (js ''a.ts'')
      (js ''@Controller('' @ [squote] @ js ''/orders'' @ [squote]
         @ js '') @Injectable() @WebSocketGateway() export class A {}'') [] [])) (js ''A'')
     = Some \<lparr>comp_id = js ''A'', comp_type = Controller,
             comp_label = js ''A<br><small>/api/orders</small>'',
             comp_filePath = js ''a.ts'', comp_subgraph = Server_subgraph\<rparr>
   \<and> map_get (fst (analyzeServerFile (js ''b.ts'')
        (js ''@WebSocketGateway() @Injectable() export class B {}'') [] [])) (js ''B'')
     = Some \<lparr>comp_id = js ''B'', comp_type = Service, comp_label = js ''B'',
             comp_filePath = js ''b.ts'', comp_subgraph = Server_subgraph\<rparr>
   \<and> map_get (fst (analyzeServerFile (js ''c.ts'')
        (js ''@WebSocketGateway() export class C {}'') [] [])) (js ''C'')
     = Some \<lparr>comp_id = js ''C'', comp_type = Gateway,
             comp_label = js ''C<br><small>WebSocket</small>'',
             comp_filePath = js ''c.ts'', comp_subgraph = Server_subgraph\<rparr>
   \<and> fst (analyzeServerFile (js ''d.ts'') (js ''export class D {}'') [] []) = []"
proof -
  let ?a = "js ''@Controller('' @ [squote] @ js ''/orders'' @ [squote]
         @ js '') @Injectable() @WebSocketGateway() export class A {}''"
  let ?b = "js ''@WebSocketGateway() @Injectable() export class B {}''"
  let ?c = "js ''@WebSocketGateway() export class C {}''"
  let ?d = "js ''export class D {}''"
  have a: "classNameMatch ?a = Some (js ''A'')" "controllerMatch ?a = Some (js ''/orders'')"
    by code_simp+
  have b: "classNameMatch ?b = Some (js ''B'')" "controllerMatch ?b = None" "serviceMatch ?b"
    by code_simp+
  have c: "classNameMatch ?c = Some (js ''C'')" "controllerMatch ?c = None" "\<not> serviceMatch ?c"
    "gatewayMatch ?c"
    by code_simp+
  have d: "classNameMatch ?d = Some (js ''D'')" "controllerMatch ?d = None" "\<not> serviceMatch ?d"
    "\<not> gatewayMatch ?d"
    by code_simp+
  show ?thesis
    using a(2) server_classification [OF a(1), of "js ''a.ts''" "[]" "[]"]
      b(2,3) server_classification [OF b(1), of "js ''b.ts''" "[]" "[]"]
      c(2,3,4) server_classification [OF c(1), of "js ''c.ts''" "[]" "[]"]
      d(2,3,4) server_classification [OF d(1), of "js ''d.ts''" "[]" "[]"]
    by (simp add: js_def)
qed




text \<open>
  C5, as amended. For a server file with an exported class \<open>ident\<close>: when the text
  includes \<open>PrismaService\<close> anywhere, the extractor appends, after the constructor's
  interactions, one interaction from \<open>ident\<close> to \<open>PrismaService\<close> labelled \<open>usa\<close>;
  when the text does not include it, only the constructor's interactions are appended
  and none of them goes to \<open>PrismaService\<close>. The constructor's interactions are all
  labelled \<open>inyecta\<close>, so the one labelled \<open>usa\<close> is the only one of its kind.
\<close>

theorem prisma_use_interaction:
  assumes "classNameMatch content = Some ident"
  shows "(str_includes content (js ''PrismaService'') \<longrightarrow>
            snd (analyzeServerFile filePath content components interactions) =
              interactions @ injected ident content
              @ [\<lparr>inter_from = ident, inter_to = js ''PrismaService'',
                  inter_label = js ''usa'', inter_isAsync = None\<rparr>])
       \<and> (\<not> str_includes content (js ''PrismaService'') \<longrightarrow>
            snd (analyzeServerFile filePath content components interactions) =
              interactions @ injected ident content
            \<and> (\<forall>i \<in> set (injected ident content). inter_to i \<noteq> js ''PrismaService''))
       \<and> (\<forall>i \<in> set (injected ident content). inter_label i = js ''inyecta'')"
proof (intro conjI impI)
  assume "str_includes content (js ''PrismaService'')"
  then show "snd (analyzeServerFile filePath content components interactions) =
              interactions @ injected ident content
              @ [\<lparr>inter_from = ident, inter_to = js ''PrismaService'',
                  inter_label = js ''usa'', inter_isAsync = None\<rparr>]"
    by (simp add: analyzeServerFile_interactions [OF assms] prisma_use_def)
next
  assume "\<not> str_includes content (js ''PrismaService'')"
  then show "snd (analyzeServerFile filePath content components interactions) =
              interactions @ injected ident content"
    by (simp add: analyzeServerFile_interactions [OF assms])
next
  assume n: "\<not> str_includes content (js ''PrismaService'')"
  show "\<forall>i \<in> set (injected ident content). inter_to i \<noteq> js ''PrismaService''"
  proof
    fix i assume "i \<in> set (injected ident content)"
    then have "str_includes content (inter_to i)" by (rule injected_target_includes)
    with n show "inter_to i \<noteq> js ''PrismaService''" by auto
  qed
next
  show "\<forall>i \<in> set (injected ident content). inter_label i = js ''inyecta''"
    using injected_label by blast
qed

text \<open>
  A file that names the service in a comment only, and a file that does not name it.
\<close>

theorem prisma_use_interaction_witness:
  "str_includes (js ''export class Report { /* no PrismaService here */ }'') (js ''PrismaService'')
   \<and> snd (analyzeServerFile (js ''report.ts'')
        (js ''export class Report { /* no PrismaService here */ }'') [] [])
      = [\<lparr>inter_from = js ''Report'', inter_to = js ''PrismaService'',
           inter_label = js ''usa'', inter_isAsync = None\<rparr>]
   \<and> \<not> str_includes (js ''export class Plain { constructor(private a: Alpha) {} }'') (js ''PrismaService'')
   \<and> snd (analyzeServerFile (js ''plain.ts'')
        (js ''export class Plain { constructor(private a: Alpha) {} }'') [] [])
      = [\<lparr>inter_from = js ''Plain'', inter_to = js ''Alpha'',
           inter_label = js ''inyecta'', inter_isAsync = None\<rparr>]"
proof -
  let ?content = "js ''export class Report { /* no PrismaService here */ }''"
  let ?plain = "js ''export class Plain { constructor(private a: Alpha) {} }''"
  have h: "classNameMatch ?content = Some (js ''Report'')" by code_simp
  have p: "str_includes ?content (js ''PrismaService'')" by code_simp
  have i: "injected (js ''Report'') ?content = []" by code_simp
  have h': "classNameMatch ?plain = Some (js ''Plain'')" by code_simp
  have p': "\<not> str_includes ?plain (js ''PrismaService'')" by code_simp
  have i': "injected (js ''Plain'') ?plain = [\<lparr>inter_from = js ''Plain'', inter_to = js ''Alpha'',
           inter_label = js ''inyecta'', inter_isAsync = None\<rparr>]" by code_simp
  show ?thesis
    using p i prisma_use_interaction [OF h, of "js ''report.ts''" "[]" "[]"]
      p' i' prisma_use_interaction [OF h', of "js ''plain.ts''" "[]" "[]"]
    by simp
qed

text \<open>
  C5 as it was stated asks for the label \<open>uses\<close>: on a file that includes the service
  name, no interaction to \<open>PrismaService\<close> labelled \<open>uses\<close> is in the list.
\<close>

theorem uses_label_counterexample:
  "classNameMatch (js ''export class Report { /* no PrismaService here */ }'') = Some (js ''Report'')
   \<and> str_includes (js ''export class Report { /* no PrismaService here */ }'') (js ''PrismaService'')
   \<and> \<lparr>inter_from = js ''Report'', inter_to = js ''PrismaService'',
        inter_label = js ''uses'', inter_isAsync = None\<rparr>
       \<notin> set (snd (analyzeServerFile (js ''report.ts'')
                 (js ''export class Report { /* no PrismaService here */ }'') [] []))"
  by code_simp

section \<open>The external components and the client pages\<close>

text \<open>
  C2. The claim asks that, with \<open>PrismaService\<close> among the components, the step adds
  the two external components and appends one interaction from \<open>PrismaService\<close> to
  \<open>Database\<close>. On the model that the service's own file produces, the step ends in a
  reference error, and so does the whole run on that file.
\<close>

theorem external_components_reference_error:
  "analyzeServerFile (js ''/proj/server/src/prisma.service.ts'')
     (js ''@Injectable() export class PrismaService {}'') [] []
   = ([(js ''PrismaService'',
        \<lparr>comp_id = js ''PrismaService'', comp_type = Service, comp_label = js ''PrismaService'',
         comp_filePath = js ''/proj/server/src/prisma.service.ts'', comp_subgraph = Server_subgraph\<rparr>)],
      [\<lparr>inter_from = js ''PrismaService'', inter_to = js ''PrismaService'',
        inter_label = js ''usa'', inter_isAsync = None\<rparr>])
   \<and> addExternalComponents
        [(js ''PrismaService'',
          \<lparr>comp_id = js ''PrismaService'', comp_type = Service, comp_label = js ''PrismaService'',
           comp_filePath = js ''/proj/server/src/prisma.service.ts'', comp_subgraph = Server_subgraph\<rparr>)]
      = Inl ReferenceError
   \<and> main [(js ''/proj/server/src/prisma.service.ts'', js ''@Injectable() export class PrismaService {}'')] []
      = Inl ReferenceError"
  by code_simp

text \<open>
  C7. The claim asks that the page file name be stripped from the identifier and that
  an empty path become the site root. For the page at the root of the client directory
  the relative path is \<open>page.tsx\<close>; the extractor keeps the file name and yields
  \<open>Page(page.tsx)\<close>, while for \<open>dashboard/page.tsx\<close> it yields \<open>Page(dashboard)\<close>.
\<close>

theorem root_page_identifier:
  "fst (analyzeClientFile (js ''/proj/client/app/page.tsx'') (js ''page.tsx'')
          (js ''export default function Home() {}'') [] [])
   = [(js ''Page(page.tsx)'',
       \<lparr>comp_id = js ''Page(page.tsx)'', comp_type = ClientPage, comp_label = js ''/page.tsx'',
        comp_filePath = js ''/proj/client/app/page.tsx'', comp_subgraph = Client_subgraph\<rparr>)]
   \<and> fst (analyzeClientFile (js ''/proj/client/app/dashboard/page.tsx'') (js ''dashboard/page.tsx'')
          (js ''export default function Dashboard() {}'') [] [])
   = [(js ''Page(dashboard)'',
       \<lparr>comp_id = js ''Page(dashboard)'', comp_type = ClientPage, comp_label = js ''/dashboard'',
        comp_filePath = js ''/proj/client/app/dashboard/page.tsx'', comp_subgraph = Client_subgraph\<rparr>)]"
  by code_simp

section \<open>The pipeline as a whole\<close>

text \<open>
  C10. The claim asks that the self-interaction of \<open>PrismaService\<close> be rendered as a
  self-loop whenever the component is in the final model. For every project with a
  server file whose exported class is \<open>PrismaService\<close> and which carries a marker, the
  extraction leaves the interaction from \<open>PrismaService\<close> to \<open>PrismaService\<close>
  labelled \<open>usa\<close> in the list and the key \<open>PrismaService\<close> in the map, so both
  endpoints are present; the run then ends in the reference error of the external
  components step and hands no text to the renderer.
\<close>

theorem prisma_self_loop_never_rendered:
  assumes "classNameMatch content = Some (js ''PrismaService'')"
    and "controllerMatch content \<noteq> None \<or> serviceMatch content \<or> gatewayMatch content"
    and "(filePath, content) \<in> set serverFiles"
  shows "\<lparr>inter_from = js ''PrismaService'', inter_to = js ''PrismaService'',
          inter_label = js ''usa'', inter_isAsync = None\<rparr>
           \<in> set (snd (extracted serverFiles clientFiles))
       \<and> js ''PrismaService'' \<in> map_keys (fst (extracted serverFiles clientFiles))
       \<and> main serverFiles clientFiles = Inl ReferenceError"
proof -
  let ?self = "\<lparr>inter_from = js ''PrismaService'', inter_to = js ''PrismaService'',
                inter_label = js ''usa'', inter_isAsync = None\<rparr>"
  let ?server = "\<lambda>(components, interactions) (file, content).
        analyzeServerFile file content components interactions"
  let ?client = "\<lambda>(components, interactions) (file, relative, content).
        analyzeClientFile file relative content components interactions"
  from assms(3) obtain before after where sf: "serverFiles = before @ (filePath, content) # after"
    by (auto dest: split_list)
  obtain c0 i0 where m0: "foldl ?server ([], []) before = (c0, i0)"
    by (cases "foldl ?server ([], []) before")
  obtain c1 i1 where m1: "analyzeServerFile filePath content c0 i0 = (c1, i1)"
    by (cases "analyzeServerFile filePath content c0 i0")
  have k1: "js ''PrismaService'' \<in> map_keys c1"
    using analyzeServerFile_classified_key [OF assms(1,2), of filePath c0 i0] by (simp add: m1)
  have s1: "?self \<in> set i1"
    using analyzeServerFile_prisma_self [OF assms(1), of filePath c0 i0] by (simp add: m1)
  have e: "extracted serverFiles clientFiles = foldl ?client (foldl ?server (c1, i1) after) clientFiles"
    by (simp add: extracted_def sf m0 m1)
  obtain c2 i2 where m2: "foldl ?server (c1, i1) after = (c2, i2)"
    by (cases "foldl ?server (c1, i1) after")
  from server_loop_keeps [of c1 i1 after] k1 s1 have k2: "js ''PrismaService'' \<in> map_keys c2"
    and s2: "?self \<in> set i2"
    by (auto simp: m2)
  from client_loop_keeps [of c2 i2 clientFiles] k2 s2
  have k: "js ''PrismaService'' \<in> map_keys (fst (extracted serverFiles clientFiles))"
    and s: "?self \<in> set (snd (extracted serverFiles clientFiles))"
    by (auto simp: e m2)
  from k have "main serverFiles clientFiles = Inl ReferenceError" by (rule main_aborts_with_prisma)
  with k s show ?thesis by simp
qed

text \<open>A project of two services and a page.\<close>

theorem prisma_self_loop_never_rendered_witness:
  "\<lparr>inter_from = js ''PrismaService'', inter_to = js ''PrismaService'',
     inter_label = js ''usa'', inter_isAsync = None\<rparr>
     \<in> set (snd (extracted
           [(js ''/proj/server/src/orders.service.ts'',
             js ''@Injectable() export class OrdersService { constructor(private prisma: PrismaService) {} }''),
            (js ''/proj/server/src/prisma.service.ts'',
             js ''@Injectable() export class PrismaService extends PrismaClient {}'')]
           [(js ''/proj/client/app/orders/page.tsx'', js ''orders/page.tsx'',
             js ''export default function Orders() {}'')]))
   \<and> js ''PrismaService''
     \<in> map_keys (fst (extracted
           [(js ''/proj/server/src/orders.service.ts'',
             js ''@Injectable() export class OrdersService { constructor(private prisma: PrismaService) {} }''),
            (js ''/proj/server/src/prisma.service.ts'',
             js ''@Injectable() export class PrismaService extends PrismaClient {}'')]
           [(js ''/proj/client/app/orders/page.tsx'', js ''orders/page.tsx'',
             js ''export default function Orders() {}'')]))
   \<and> main
       [(js ''/proj/server/src/orders.service.ts'',
         js ''@Injectable() export class OrdersService { constructor(private prisma: PrismaService) {} }''),
        (js ''/proj/server/src/prisma.service.ts'',
         js ''@Injectable() export class PrismaService extends PrismaClient {}'')]
       [(js ''/proj/client/app/orders/page.tsx'', js ''orders/page.tsx'',
         js ''export default function Orders() {}'')]
     = Inl ReferenceError"
proof -
  let ?content = "js ''@Injectable() export class PrismaService extends PrismaClient {}''"
  have h: "classNameMatch ?content = Some (js ''PrismaService'')" by code_simp
  have m: "serviceMatch ?content" by code_simp
  show ?thesis
    by (rule prisma_self_loop_never_rendered [OF h, of "js ''/proj/server/src/prisma.service.ts''"])
      (simp_all add: m)
qed



end
